theory Spec2Isabelle
  imports Complex_Main
begin

section \<open>The program: temperature\_to\_midi.py\<close>

text \<open>
  A shallow embedding of \<^verbatim>\<open>src/temperature_to_midi.py\<close>. The temperatures read
  from the file are finite floats, each the real number it denotes. The arithmetic of
  \<^verbatim>\<open>midi_normalization\<close> is that of IEEE 754 binary64: every operation rounds its
  result to the nearest float, and may overflow to an infinity. Python's unbounded
  integers are \<open>int\<close>, positions produced by \<^verbatim>\<open>enumerate\<close> are \<open>nat\<close>. A raised
  exception is a value \<open>Inl e\<close> of a sum type. The \<^verbatim>\<open>print\<close> calls of the source
  only write to the standard output and are left out; the state of the model is the
  file system.
\<close>

subsection \<open>Exceptions\<close>

text \<open>
  The exceptions the source can raise: a division or a modulo by zero, \<^verbatim>\<open>max\<close> of
  an empty list or \<^verbatim>\<open>float\<close> of a cell that is no number, a call of an object that
  is not callable, \<^verbatim>\<open>open\<close> of a file that does not exist, and the conversion to
  a float of an integer that is too large.
\<close>

datatype error =
    ZeroDivisionError
  | ValueError
  | TypeError
  | FileNotFoundError
  | OverflowError

subsection \<open>Downsampler: get\_list\_average and step\_average\<close>

text \<open>
  \<^verbatim>\<open>return sum(list_to_average) / len(list_to_average)\<close>. The sum and the quotient
  are the exact ones: what is stated about \<^verbatim>\<open>step_average\<close> below is which
  windows are averaged, and the examples are exact in binary64.
\<close>

definition get_list_average :: "real list \<Rightarrow> error + real" where
  "get_list_average list_to_average =
     (if length list_to_average = 0 then Inl ZeroDivisionError
      else Inr (sum_list list_to_average / real (length list_to_average)))"

text \<open>
  The loop of \<^verbatim>\<open>step_average\<close> over \<^verbatim>\<open>enumerate(sequence, start=0)\<close>: the
  arguments are the step, the current \<^verbatim>\<open>sequence_number\<close>, the items still to
  come, \<^verbatim>\<open>stepped_sequence\<close> and \<^verbatim>\<open>step_sequence\<close>. The modulo is evaluated
  before the test against zero, and raises when the step is zero.
\<close>

fun step_average_loop ::
  "int \<Rightarrow> nat \<Rightarrow> real list \<Rightarrow> real list \<Rightarrow> real list \<Rightarrow> error + real list" where
  "step_average_loop step sequence_number [] stepped_sequence step_sequence =
     Inr stepped_sequence"
| "step_average_loop step sequence_number (sequence_item # rest) stepped_sequence step_sequence =
     (if step = 0 then Inl ZeroDivisionError
      else if int sequence_number mod step = 0 \<and> sequence_number \<noteq> 0 then
        (case get_list_average step_sequence of
           Inl e \<Rightarrow> Inl e
         | Inr average \<Rightarrow>
             step_average_loop step (Suc sequence_number) rest
               (stepped_sequence @ [average]) ([] @ [sequence_item]))
      else
        step_average_loop step (Suc sequence_number) rest
          stepped_sequence (step_sequence @ [sequence_item]))"

definition step_average :: "real list \<Rightarrow> int \<Rightarrow> error + real list" where
  "step_average sequence step = step_average_loop step 0 sequence [] []"

subsection \<open>Floats\<close>

text \<open>
  A Python float is an IEEE 754 binary64 number: a finite number, an infinity, or a
  NaN. The two zeros are one value here: they are equal in every comparison, and no
  operation of the source tells them apart.
\<close>

datatype pyfloat = Finite real | PosInf | NegInf | NaN

text \<open>The nearest integer, a tie going to the even one.\<close>

definition round_even :: "real \<Rightarrow> int" where
  "round_even m =
     (let f = \<lfloor>m\<rfloor>; d = m - real_of_int f
      in if d < 1 / 2 then f
         else if 1 / 2 < d then f + 1
         else if even f then f else f + 1)"

text \<open>
  The binary exponent of a positive number: \<open>2 ^ e \<le> a < 2 ^ (e + 1)\<close>, and never less
  than \<open>- 1022\<close>, where the subnormal numbers begin.
\<close>

definition expo :: "real \<Rightarrow> int" where
  "expo a = max \<lfloor>log 2 a\<rfloor> (- 1022)"

text \<open>
  Rounding a positive number to 53 significant bits: the nearest multiple of
  \<open>2 ^ (e - 52)\<close>, ties to even.
\<close>

definition round_mag :: "real \<Rightarrow> real" where
  "round_mag a =
     real_of_int (round_even (a / 2 powr real_of_int (expo a - 52)))
       * 2 powr real_of_int (expo a - 52)"

text \<open>
  The float nearest to a real number, which is the result of each arithmetic operation
  on finite floats: the sign is kept, the magnitude is rounded, and a magnitude that
  rounds to \<open>2 ^ 1024\<close> or more overflows to an infinity.
\<close>

definition round_double :: "real \<Rightarrow> pyfloat" where
  "round_double x =
     (if x = 0 then Finite 0
      else
        (let r = round_mag \<bar>x\<bar>
         in if 2 ^ 1024 \<le> r then (if 0 < x then PosInf else NegInf)
            else Finite (if 0 < x then r else - r)))"

text \<open>Python's \<^verbatim>\<open><=\<close> and \<^verbatim>\<open><\<close> on floats: every comparison with a NaN is false.\<close>

fun pyfloat_le :: "pyfloat \<Rightarrow> pyfloat \<Rightarrow> bool" where
  "pyfloat_le NaN b = False"
| "pyfloat_le a NaN = False"
| "pyfloat_le NegInf b = True"
| "pyfloat_le a PosInf = True"
| "pyfloat_le (Finite x) (Finite y) = (x \<le> y)"
| "pyfloat_le a b = False"

instantiation pyfloat :: ord
begin

definition less_eq_pyfloat :: "pyfloat \<Rightarrow> pyfloat \<Rightarrow> bool" where
  "less_eq_pyfloat a b = pyfloat_le a b"

definition less_pyfloat :: "pyfloat \<Rightarrow> pyfloat \<Rightarrow> bool" where
  "less_pyfloat a b = (pyfloat_le a b \<and> \<not> pyfloat_le b a)"

instance ..

end

text \<open>
  \<^verbatim>\<open>float(i)\<close> of an integer, as the arithmetic operators apply it to an integer
  operand: the nearest float, and OverflowError when the integer is too large.
\<close>

definition float_of_int :: "int \<Rightarrow> error + pyfloat" where
  "float_of_int i =
     (case round_double (real_of_int i) of
        Finite x \<Rightarrow> Inr (Finite x)
      | _ \<Rightarrow> Inl OverflowError)"

text \<open>Negation, and the operators \<^verbatim>\<open>+\<close>, \<^verbatim>\<open>-\<close>, \<^verbatim>\<open>*\<close> and \<^verbatim>\<open>/\<close> on floats.\<close>

fun py_neg :: "pyfloat \<Rightarrow> pyfloat" where
  "py_neg (Finite x) = Finite (- x)"
| "py_neg PosInf = NegInf"
| "py_neg NegInf = PosInf"
| "py_neg NaN = NaN"

fun py_add :: "pyfloat \<Rightarrow> pyfloat \<Rightarrow> pyfloat" where
  "py_add NaN b = NaN"
| "py_add a NaN = NaN"
| "py_add (Finite x) (Finite y) = round_double (x + y)"
| "py_add PosInf NegInf = NaN"
| "py_add NegInf PosInf = NaN"
| "py_add PosInf b = PosInf"
| "py_add a PosInf = PosInf"
| "py_add NegInf b = NegInf"
| "py_add a NegInf = NegInf"

definition py_sub :: "pyfloat \<Rightarrow> pyfloat \<Rightarrow> pyfloat" where
  "py_sub a b = py_add a (py_neg b)"

fun py_mul :: "pyfloat \<Rightarrow> pyfloat \<Rightarrow> pyfloat" where
  "py_mul NaN b = NaN"
| "py_mul a NaN = NaN"
| "py_mul (Finite x) (Finite y) = round_double (x * y)"
| "py_mul (Finite x) PosInf = (if x = 0 then NaN else if 0 < x then PosInf else NegInf)"
| "py_mul (Finite x) NegInf = (if x = 0 then NaN else if 0 < x then NegInf else PosInf)"
| "py_mul PosInf (Finite y) = (if y = 0 then NaN else if 0 < y then PosInf else NegInf)"
| "py_mul NegInf (Finite y) = (if y = 0 then NaN else if 0 < y then NegInf else PosInf)"
| "py_mul PosInf PosInf = PosInf"
| "py_mul NegInf NegInf = PosInf"
| "py_mul PosInf NegInf = NegInf"
| "py_mul NegInf PosInf = NegInf"

text \<open>The division raises ZeroDivisionError when the divisor is zero.\<close>

fun py_truediv :: "pyfloat \<Rightarrow> pyfloat \<Rightarrow> error + pyfloat" where
  "py_truediv a (Finite y) =
     (if y = 0 then Inl ZeroDivisionError
      else
        (case a of
           Finite x \<Rightarrow> Inr (round_double (x / y))
         | PosInf \<Rightarrow> Inr (if 0 < y then PosInf else NegInf)
         | NegInf \<Rightarrow> Inr (if 0 < y then NegInf else PosInf)
         | NaN \<Rightarrow> Inr NaN))"
| "py_truediv a NaN = Inr NaN"
| "py_truediv (Finite x) b = Inr (Finite 0)"
| "py_truediv a b = Inr NaN"

subsection \<open>Normalizer: midi\_normalization\<close>

text \<open>
  Python's \<^verbatim>\<open>max\<close> and \<^verbatim>\<open>min\<close> of a list: the first item, replaced by each
  later item that is strictly greater (smaller); an empty list raises ValueError.
\<close>

fun py_max :: "real list \<Rightarrow> error + real" where
  "py_max [] = Inl ValueError"
| "py_max (x # xs) = Inr (fold (\<lambda>y m. if y > m then y else m) xs x)"

fun py_min :: "real list \<Rightarrow> error + real" where
  "py_min [] = Inl ValueError"
| "py_min (x # xs) = Inr (fold (\<lambda>y m. if y < m then y else m) xs x)"

text \<open>
  The loop \<^verbatim>\<open>for i in range(midi_note_min, midi_note_max)\<close>, appending
  \<^verbatim>\<open>min(csv_values) + (i * increment)\<close> to \<^verbatim>\<open>increments\<close>: the integer
  \<open>i\<close> is converted to a float, the product and then the sum are rounded.
\<close>

function midi_normalization_loop ::
  "real \<Rightarrow> pyfloat \<Rightarrow> int \<Rightarrow> int \<Rightarrow> pyfloat list \<Rightarrow> error + pyfloat list" where
  "midi_normalization_loop lowest increment i midi_note_max increments =
     (if i < midi_note_max then
        (case float_of_int i of
           Inl e \<Rightarrow> Inl e
         | Inr fi \<Rightarrow>
             midi_normalization_loop lowest increment (i + 1) midi_note_max
               (increments @ [py_add (Finite lowest) (py_mul fi increment)]))
      else Inr increments)"
  by pat_completeness auto
termination
  by (relation "measure (\<lambda>(lowest, increment, i, midi_note_max, increments). nat (midi_note_max - i))")
    auto

declare midi_normalization_loop.simps [simp del]

text \<open>
  The values of the list are finite floats. The difference
  \<^verbatim>\<open>max(csv_values) - min(csv_values)\<close> is rounded; in
  \<^verbatim>\<open>the_range / total_midi_notes\<close> the integer is converted to a float, a zero
  divisor raises ZeroDivisionError, and the quotient is rounded.
\<close>

definition midi_normalization :: "real list \<Rightarrow> int \<Rightarrow> int \<Rightarrow> error + pyfloat list" where
  "midi_normalization csv_values midi_note_min midi_note_max =
     (case py_max csv_values of
        Inl e \<Rightarrow> Inl e
      | Inr highest \<Rightarrow>
         (case py_min csv_values of
            Inl e \<Rightarrow> Inl e
          | Inr lowest \<Rightarrow>
             (let the_range = py_sub (Finite highest) (Finite lowest);
                  total_midi_notes = midi_note_max - midi_note_min
              in case float_of_int total_midi_notes of
                   Inl e \<Rightarrow> Inl e
                 | Inr divisor \<Rightarrow>
                    (case py_truediv the_range divisor of
                       Inl e \<Rightarrow> Inl e
                     | Inr increment \<Rightarrow>
                         midi_normalization_loop lowest increment
                           midi_note_min midi_note_max []))))"

subsection \<open>Bucketizer: convert\_sequence\<close>

text \<open>
  The inner loop \<^verbatim>\<open>for num, i in enumerate(increments, start=0)\<close> with its
  \<^verbatim>\<open>break\<close>: the position of the first increment \<open>i\<close> with \<open>t \<le> i\<close>, or
  \<open>None\<close> when the loop ends without a break. The loops only compare, so they are
  defined for every type with a comparison: the real numbers, and the floats.
\<close>

fun convert_sequence_inner :: "'a::ord \<Rightarrow> 'a list \<Rightarrow> nat \<Rightarrow> nat option" where
  "convert_sequence_inner t [] num = None"
| "convert_sequence_inner t (i # increments) num =
     (if t \<le> i then Some num else convert_sequence_inner t increments (Suc num))"

fun convert_sequence_loop :: "'a::ord list \<Rightarrow> 'a list \<Rightarrow> int \<Rightarrow> int list \<Rightarrow> int list" where
  "convert_sequence_loop [] increments midi_note_min sequence = sequence"
| "convert_sequence_loop (t # temperatures) increments midi_note_min sequence =
     (case convert_sequence_inner t increments 0 of
        Some num \<Rightarrow>
          convert_sequence_loop temperatures increments midi_note_min
            (sequence @ [int num + midi_note_min])
      | None \<Rightarrow> convert_sequence_loop temperatures increments midi_note_min sequence)"

definition convert_sequence :: "'a::ord list \<Rightarrow> 'a list \<Rightarrow> int \<Rightarrow> int list" where
  "convert_sequence temperatures increments midi_note_min =
     convert_sequence_loop temperatures increments midi_note_min []"

subsection \<open>External collaborators and the file system\<close>

text \<open>
  The notes handed to the MIDI library: \<^verbatim>\<open>addTempo(track, time, tempo)\<close> and
  \<^verbatim>\<open>addNote(track, channel, pitch, time, duration, volume)\<close>.
\<close>

datatype midi_event =
    AddTempo int int int
  | AddNote int int int int int int

text \<open>
  The library functions the source calls are parameters of the model: \<^verbatim>\<open>float\<close>
  on a cell (\<open>None\<close> when it raises ValueError), the rows \<^verbatim>\<open>csv.reader\<close> yields
  for the content of a file, and the content \<^verbatim>\<open>MIDIFile.writeFile\<close> writes for the
  events added. A file system maps the names of the existing files to their content.
\<close>

record 'c env =
  py_float :: "string \<Rightarrow> real option"
  csv_reader :: "'c \<Rightarrow> string list list"
  writeFile :: "midi_event list \<Rightarrow> 'c"

type_synonym 'c fs = "string \<rightharpoonup> 'c"

subsection \<open>Reader: read\_history\<close>

text \<open>The loop over the columns of one row, \<^verbatim>\<open>enumerate(row, start=0)\<close>.\<close>

fun read_history_row ::
  "(string \<Rightarrow> real option) \<Rightarrow> nat \<Rightarrow> string list \<Rightarrow> real list \<Rightarrow> error + real list" where
  "read_history_row flt column_number [] temperatures = Inr temperatures"
| "read_history_row flt column_number (column # row) temperatures =
     (if 1 \<le> column_number \<and> column_number < 14 then
        (if column \<noteq> ''***'' then
           (case flt column of
              None \<Rightarrow> Inl ValueError
            | Some v \<Rightarrow> read_history_row flt (Suc column_number) row (temperatures @ [v]))
         else read_history_row flt (Suc column_number) row temperatures)
      else read_history_row flt (Suc column_number) row temperatures)"

text \<open>The loop over the rows, \<^verbatim>\<open>enumerate(temp_history_reader, start=0)\<close>.\<close>

fun read_history_rows ::
  "(string \<Rightarrow> real option) \<Rightarrow> nat \<Rightarrow> string list list \<Rightarrow> real list \<Rightarrow> error + real list" where
  "read_history_rows flt row_number [] temperatures = Inr temperatures"
| "read_history_rows flt row_number (row # rows) temperatures =
     (if row_number > 1 then
        (case read_history_row flt 0 row temperatures of
           Inl e \<Rightarrow> Inl e
         | Inr temperatures' \<Rightarrow> read_history_rows flt (Suc row_number) rows temperatures')
      else read_history_rows flt (Suc row_number) rows temperatures)"

definition read_history :: "'c env \<Rightarrow> 'c fs \<Rightarrow> string \<Rightarrow> error + real list" where
  "read_history env files file_name =
     (case files file_name of
        None \<Rightarrow> Inl FileNotFoundError
      | Some content \<Rightarrow> read_history_rows (py_float env) 0 (csv_reader env content) [])"

subsection \<open>Encoder: create\_midi\<close>

definition duration_monthly :: int where
  "duration_monthly = 1"

definition duration_yearly :: int where
  "duration_yearly = duration_monthly * 12"

definition duration_by_decade :: int where
  "duration_by_decade = duration_yearly * 10"

text \<open>The loop \<^verbatim>\<open>for pitch in sequence\<close>, on track 0 and channel 0.\<close>

fun create_midi_loop ::
  "int list \<Rightarrow> int \<Rightarrow> int \<Rightarrow> int \<Rightarrow> midi_event list \<Rightarrow> midi_event list" where
  "create_midi_loop [] time duration volume music = music"
| "create_midi_loop (pitch # sequence) time duration volume music =
     create_midi_loop sequence (time + 1) duration volume
       (music @ [AddNote 0 0 pitch (time * duration) duration volume])"

text \<open>
  The file is opened and written after every note has been added; the result is the
  file system with the file of that name created or replaced.
\<close>

definition create_midi ::
  "'c env \<Rightarrow> int list \<Rightarrow> int \<Rightarrow> int \<Rightarrow> string \<Rightarrow> int \<Rightarrow> 'c fs \<Rightarrow> 'c fs" where
  "create_midi env sequence tempo volume file_name duration files =
     (let time = 0;
          music = create_midi_loop sequence time duration volume
                    [AddTempo 0 (time * duration) tempo]
      in files(file_name \<mapsto> writeFile env music))"

subsection \<open>Sequencer: the four modes and set\_mode\<close>

text \<open>
  Each mode returns \<open>Inr ()\<close> or the exception that ended it, together with the file
  system it leaves behind.
\<close>

type_synonym 'c outcome = "(error + unit) \<times> 'c fs"

type_synonym 'c mode_function =
  "'c env \<Rightarrow> string \<Rightarrow> string \<Rightarrow> int \<Rightarrow> int \<Rightarrow> int \<Rightarrow> int \<Rightarrow> 'c fs \<Rightarrow> 'c outcome"

definition create_monthly_sequence :: "'c mode_function" where
  "create_monthly_sequence env temperature_data output_midi_file_name bpm volume
       midi_note_min midi_note_max files =
     (case read_history env files temperature_data of
        Inl e \<Rightarrow> (Inl e, files)
      | Inr temperature_history \<Rightarrow>
         (case midi_normalization temperature_history midi_note_min midi_note_max of
            Inl e \<Rightarrow> (Inl e, files)
          | Inr new_increments \<Rightarrow>
             (let sequence = convert_sequence (map Finite temperature_history) new_increments
                              midi_note_min
              in (Inr (), create_midi env sequence bpm volume
                            (output_midi_file_name @ ''_monthly.mid'') duration_monthly files))))"

definition create_yearly_sequence :: "'c mode_function" where
  "create_yearly_sequence env temperature_data output_midi_file_name bpm volume
       midi_note_min midi_note_max files =
     (case read_history env files temperature_data of
        Inl e \<Rightarrow> (Inl e, files)
      | Inr temperature_history \<Rightarrow>
         (case step_average temperature_history duration_yearly of
            Inl e \<Rightarrow> (Inl e, files)
          | Inr yearly_history \<Rightarrow>
             (case midi_normalization yearly_history midi_note_min midi_note_max of
                Inl e \<Rightarrow> (Inl e, files)
              | Inr new_increments \<Rightarrow>
                 (let sequence = convert_sequence (map Finite yearly_history) new_increments
                              midi_note_min
                  in (Inr (), create_midi env sequence bpm volume
                                (output_midi_file_name @ ''_yearly.mid'') duration_yearly files)))))"

definition create_decade_sequence :: "'c mode_function" where
  "create_decade_sequence env temperature_data output_midi_file_name bpm volume
       midi_note_min midi_note_max files =
     (case read_history env files temperature_data of
        Inl e \<Rightarrow> (Inl e, files)
      | Inr temperature_history \<Rightarrow>
         (case step_average temperature_history duration_by_decade of
            Inl e \<Rightarrow> (Inl e, files)
          | Inr decade_history \<Rightarrow>
             (case midi_normalization decade_history midi_note_min midi_note_max of
                Inl e \<Rightarrow> (Inl e, files)
              | Inr new_increments \<Rightarrow>
                 (let sequence = convert_sequence (map Finite decade_history) new_increments
                              midi_note_min
                  in (Inr (), create_midi env sequence bpm volume
                                (output_midi_file_name @ ''_decade.mid'') duration_by_decade files)))))"

definition create_all_sequences :: "'c mode_function" where
  "create_all_sequences env temperature_data output_midi_file_name bpm volume
       midi_note_min midi_note_max files =
     (case create_monthly_sequence env temperature_data output_midi_file_name bpm volume
             midi_note_min midi_note_max files of
        (Inl e, files1) \<Rightarrow> (Inl e, files1)
      | (Inr u, files1) \<Rightarrow>
         (case create_yearly_sequence env temperature_data output_midi_file_name bpm volume
                 midi_note_min midi_note_max files1 of
            (Inl e, files2) \<Rightarrow> (Inl e, files2)
          | (Inr u, files2) \<Rightarrow>
              create_decade_sequence env temperature_data output_midi_file_name bpm volume
                midi_note_min midi_note_max files2))"

text \<open>
  A value that \<^verbatim>\<open>mode_switch.get(mode, "invalid mode")\<close> can return: one of the
  functions stored in the dictionary, or the default, a string.
\<close>

datatype 'f py_object = Function 'f | Str string

definition mode_switch :: "int \<rightharpoonup> 'c mode_function" where
  "mode_switch =
     [0 \<mapsto> create_monthly_sequence,
      1 \<mapsto> create_yearly_sequence,
      2 \<mapsto> create_decade_sequence,
      3 \<mapsto> create_all_sequences]"

text \<open>\<^verbatim>\<open>d.get(key, default)\<close>\<close>

definition dict_get :: "('k \<rightharpoonup> 'f) \<Rightarrow> 'k \<Rightarrow> string \<Rightarrow> 'f py_object" where
  "dict_get d key dflt = (case d key of Some f \<Rightarrow> Function f | None \<Rightarrow> Str dflt)"

text \<open>Calling the object: a string is not callable, and the call raises TypeError.\<close>

definition set_mode ::
  "int \<Rightarrow> 'c env \<Rightarrow> string \<Rightarrow> string \<Rightarrow> int \<Rightarrow> int \<Rightarrow> int \<Rightarrow> int \<Rightarrow> 'c fs \<Rightarrow> 'c outcome" where
  "set_mode mode env temperature_data output_midi_file_name bpm volume
       midi_note_min midi_note_max files =
     (case dict_get mode_switch mode ''invalid mode'' of
        Function func \<Rightarrow>
          func env temperature_data output_midi_file_name bpm volume
            midi_note_min midi_note_max files
      | Str s \<Rightarrow> (Inl TypeError, files))"

section \<open>Notions used to state the properties\<close>

text \<open>
  The windows of \<open>s\<close> consecutive elements of a list, from position 0, that are
  followed by at least one more element.
\<close>

function followed_windows :: "nat \<Rightarrow> real list \<Rightarrow> real list list" where
  "followed_windows s xs =
     (if s = 0 \<or> length xs \<le> s then [] else take s xs # followed_windows s (drop s xs))"
  by pat_completeness auto
termination
  by (relation "measure (\<lambda>(s, xs). length xs)") auto

declare followed_windows.simps [simp del]

text \<open>The arithmetic mean of a list.\<close>

definition mean :: "real list \<Rightarrow> real" where
  "mean w = sum_list w / real (length w)"


text \<open>A real number that is a float: rounding leaves it as it is.\<close>

definition is_float :: "real \<Rightarrow> bool" where
  "is_float x = (round_double x = Finite x)"

text \<open>The float nearest to an integer.\<close>

definition float_int :: "int \<Rightarrow> pyfloat" where
  "float_int i = round_double (real_of_int i)"

subsection \<open>A sample environment\<close>

text \<open>
  A concrete instance of the external collaborators, on which the properties are
  evaluated: a file is a table of cells or a list of MIDI events, and the cells
  \<^verbatim>\<open>1\<close> to \<^verbatim>\<open>14\<close> are the numbers that \<^verbatim>\<open>float\<close> accepts. The table has
  two header rows and one record of fifteen cells, whose fourth cell is the sentinel.
\<close>

datatype sample_content = Table "string list list" | Midi "midi_event list"

definition sample_float :: "string \<Rightarrow> real option" where
  "sample_float =
     map_of [(''1'', 1), (''2'', 2), (''3'', 3), (''4'', 4), (''5'', 5), (''6'', 6), (''7'', 7),
             (''8'', 8), (''9'', 9), (''10'', 10), (''11'', 11), (''12'', 12), (''13'', 13),
             (''14'', 14)]"

definition sample_rows :: "sample_content \<Rightarrow> string list list" where
  "sample_rows content = (case content of Table rows \<Rightarrow> rows | Midi events \<Rightarrow> [])"

definition sample_env :: "sample_content env" where
  "sample_env = \<lparr>py_float = sample_float, csv_reader = sample_rows, writeFile = Midi\<rparr>"

definition sample_table :: "string list list" where
  "sample_table =
     [[''Land-Ocean''],
      [''Year'', ''Jan''],
      [''1880'', ''1'', ''2'', ''***'', ''4'', ''5'', ''6'', ''7'', ''8'', ''9'', ''10'', ''11'',
       ''12'', ''13'', ''14'']]"

definition sample_files :: "sample_content fs" where
  "sample_files = [''t.csv'' \<mapsto> Table sample_table]"

section \<open>Downsampler\<close>

subsection \<open>The windows\<close>

lemma length_followed_windows:
  "0 < s \<Longrightarrow> length (followed_windows s xs) = (length xs - 1) div s"
proof (induction s xs rule: followed_windows.induct)
  case (1 s xs)
  show ?case
  proof (cases "length xs \<le> s")
    case True
    then have "(length xs - 1) div s = 0" using "1.prems" by simp
    with True show ?thesis by (simp add: followed_windows.simps [of s xs])
  next
    case False
    then have ih: "length (followed_windows s (drop s xs)) = (length xs - s - 1) div s"
      using "1.IH" "1.prems" by simp
    have "(length xs - 1) div s = Suc ((length xs - s - 1) div s)"
    proof -
      have "length xs - 1 = (length xs - s - 1) + s" using False by simp
      then show ?thesis using "1.prems" by (metis div_add_self2 Suc_eq_plus1 less_numeral_extra(3))
    qed
    with ih False "1.prems" show ?thesis by (simp add: followed_windows.simps [of s xs])
  qed
qed

lemma nth_followed_windows:
  "0 < s \<Longrightarrow> k < length (followed_windows s xs) \<Longrightarrow>
     followed_windows s xs ! k = take s (drop (k * s) xs)"
proof (induction s xs arbitrary: k rule: followed_windows.induct)
  case (1 s xs)
  show ?case
  proof (cases "length xs \<le> s")
    case True
    with "1.prems" show ?thesis by (simp add: followed_windows.simps [of s xs])
  next
    case False
    have unf: "followed_windows s xs = take s xs # followed_windows s (drop s xs)"
      using False "1.prems" by (simp add: followed_windows.simps [of s xs])
    show ?thesis
    proof (cases k)
      case 0
      then show ?thesis by (simp add: unf)
    next
      case (Suc j)
      then have "j < length (followed_windows s (drop s xs))" using "1.prems" unf by simp
      then have "followed_windows s (drop s xs) ! j = take s (drop (j * s) (drop s xs))"
        using "1.IH" False "1.prems" by simp
      then show ?thesis using Suc by (simp add: unf add.commute)
    qed
  qed
qed

lemma followed_windows_one: "followed_windows (Suc 0) xs = map (\<lambda>x. [x]) (butlast xs)"
proof (induction xs)
  case Nil
  show ?case by (simp add: followed_windows.simps [of "Suc 0" "[]"])
next
  case (Cons x xs)
  show ?case
  proof (cases xs)
    case Nil
    then show ?thesis by (simp add: followed_windows.simps [of "Suc 0" "[x]"])
  next
    case (Cons y ys)
    then show ?thesis
      using Cons.IH by (simp add: followed_windows.simps [of "Suc 0" "x # y # ys"])
  qed
qed

subsection \<open>The loop of step\_average\<close>

text \<open>
  After \<open>n > 0\<close> items the current \<^verbatim>\<open>step_sequence\<close> holds
  \<open>(n - 1) mod s + 1\<close> items, and the loop emits the mean of every window that is
  followed by another item.
\<close>

lemma step_average_loop_windows:
  assumes "0 < s" "0 < n" "length cur = (n - 1) mod s + 1"
  shows "step_average_loop (int s) n rest stepped cur =
           Inr (stepped @ map mean (followed_windows s (cur @ rest)))"
  using assms(2,3)
proof (induction rest arbitrary: n stepped cur)
  case Nil
  have "(n - 1) mod s < s" using assms(1) by simp
  then have "length cur \<le> s" using Nil by simp
  then show ?case by (simp add: followed_windows.simps [of s cur])
next
  case (Cons x rest)
  obtain m where n: "n = Suc m" using Cons.prems(1) by (cases n) auto
  have len: "length cur = Suc (m mod s)" using Cons.prems(2) n by simp
  have modint: "(int n mod int s = 0) = (n mod s = 0)"
    by (metis of_nat_0 of_nat_eq_iff zmod_int)
  show ?case
  proof (cases "n mod s = 0")
    case True
    then have full: "length cur = s"
      using len n by (simp add: mod_Suc split: if_splits)
    have avg: "get_list_average cur = Inr (mean cur)"
      using full assms(1) by (simp add: get_list_average_def mean_def)
    have next_len: "length [x] = (Suc n - 1) mod s + 1" using True by simp
    have ih: "step_average_loop (int s) (Suc n) rest (stepped @ [mean cur]) [x] =
                Inr ((stepped @ [mean cur]) @ map mean (followed_windows s ([x] @ rest)))"
      using Cons.IH [of "Suc n" "[x]" "stepped @ [mean cur]"] next_len by simp
    have win: "followed_windows s (cur @ x # rest) = cur # followed_windows s (x # rest)"
      using full assms(1) by (simp add: followed_windows.simps [of s "cur @ x # rest"])
    have cond: "int n mod int s = 0" "0 < n"
      using True Cons.prems(1) modint by simp_all
    show ?thesis
      using assms(1) ih by (simp add: cond avg win)
  next
    case False
    then have part: "Suc (length cur) = n mod s + 1"
      using len n by (simp add: mod_Suc split: if_splits)
    then have next_len: "length (cur @ [x]) = (Suc n - 1) mod s + 1" by simp
    have ih: "step_average_loop (int s) (Suc n) rest stepped (cur @ [x]) =
                Inr (stepped @ map mean (followed_windows s ((cur @ [x]) @ rest)))"
      using Cons.IH [of "Suc n" "cur @ [x]" stepped] next_len by simp
    have cond: "int n mod int s \<noteq> 0"
      using False modint by simp
    show ?thesis
      using assms(1) ih by (simp add: cond)
  qed
qed

lemma step_average_windows:
  assumes "0 < s"
  shows "step_average xs (int s) = Inr (map mean (followed_windows s xs))"
proof (cases xs)
  case Nil
  then show ?thesis by (simp add: step_average_def followed_windows.simps [of s "[]"])
next
  case (Cons x rest)
  have "step_average_loop (int s) (Suc 0) rest [] [x] =
          Inr ([] @ map mean (followed_windows s ([x] @ rest)))"
    by (rule step_average_loop_windows) (use assms in simp_all)
  then show ?thesis using Cons assms by (simp add: step_average_def)
qed

lemma step_average_loop_minus:
  "step_average_loop (- step) n xs stepped cur = step_average_loop step n xs stepped cur"
proof (induction xs arbitrary: n stepped cur)
  case Nil
  show ?case by simp
next
  case (Cons x xs)
  show ?case using Cons.IH by (simp add: mod_eq_0_iff_dvd split: sum.split)
qed

subsection \<open>Claims on step\_average\<close>

text \<open>
  Claim C1: \<^verbatim>\<open>step_average\<close> emits the mean of each complete window of \<open>step\<close>
  elements, and \<^verbatim>\<open>step_average([1,2,3,4,5,6,7,8], 4)\<close> returns \<open>[2.5, 6.5]\<close>.
  The code returns \<open>[2.5]\<close> there: the second window is complete, and its mean is
  never appended, since the mean of a window is appended only when the loop reaches the
  item after it. The docstring of the function gives a result of two elements for this
  very input.
\<close>

theorem step_average_example:
  "step_average [1, 2, 3, 4, 5, 6, 7, 8] 4 = Inr [5 / 2]
   \<and> step_average [1, 2, 3, 4, 5, 6, 7, 8] 4 \<noteq> Inr [5 / 2, 13 / 2]"
  by (simp add: step_average_def get_list_average_def)

text \<open>
  Claim C2: for every non-empty list \<open>S\<close>, \<^verbatim>\<open>step_average(S, 1)\<close> returns \<open>S\<close>.
  The code returns \<open>S\<close> without its last element, for the reason given at C1.
\<close>

theorem step_average_step_one:
  "step_average xs 1 = Inr (butlast xs) \<and> step_average [1, 2, 3] 1 = Inr [1, 2]"
proof -
  have "step_average ys (int (Suc 0)) = Inr (map mean (followed_windows (Suc 0) ys))" for ys
    by (rule step_average_windows) simp
  then have "step_average ys 1 = Inr (butlast ys)" for ys
    by (simp add: followed_windows_one comp_def mean_def)
  then show ?thesis by simp
qed

text \<open>
  Claim C9, as amended: for every non-empty input list and every \<open>step \<ge> 1\<close>,
  \<^verbatim>\<open>step_average\<close> returns a list of length \<open>(len(sequence) - 1) // step\<close>;
  for the empty list it returns the empty list. Element \<open>k\<close> of the result is the mean
  of the window that starts at position \<open>k * step\<close>, and at least one element follows
  that window in the input.
\<close>

theorem step_average_length:
  assumes "1 \<le> step"
  shows "\<exists>ys. step_average xs step = Inr ys
           \<and> (xs \<noteq> [] \<longrightarrow> int (length ys) = (int (length xs) - 1) div step)
           \<and> (xs = [] \<longrightarrow> ys = [])
           \<and> (\<forall>k<length ys. (k + 1) * nat step < length xs
                 \<and> ys ! k = sum_list (take (nat step) (drop (k * nat step) xs)) / real_of_int step)"
proof -
  define s where "s = nat step"
  have s: "0 < s" "step = int s" using assms by (simp_all add: s_def)
  let ?ws = "followed_windows s xs"
  have res: "step_average xs step = Inr (map mean ?ws)"
    using step_average_windows [OF s(1), of xs] s(2) by simp
  have len: "length ?ws = (length xs - 1) div s"
    by (rule length_followed_windows [OF s(1)])
  have l1: "xs \<noteq> [] \<longrightarrow> int (length (map mean ?ws)) = (int (length xs) - 1) div step"
  proof
    assume "xs \<noteq> []"
    then have a: "int (length xs - 1) = int (length xs) - 1" by (cases xs) simp_all
    have "int (length (map mean ?ws)) = int ((length xs - 1) div s)" using len by simp
    also have "\<dots> = int (length xs - 1) div int s" by (rule zdiv_int)
    also have "\<dots> = (int (length xs) - 1) div step" by (simp only: a s(2))
    finally show "int (length (map mean ?ws)) = (int (length xs) - 1) div step" .
  qed
  have l2: "xs = [] \<longrightarrow> map mean ?ws = []"
    by (simp add: followed_windows.simps [of s "[]"])
  have l3: "\<forall>k<length (map mean ?ws). (k + 1) * nat step < length xs
              \<and> map mean ?ws ! k
                  = sum_list (take (nat step) (drop (k * nat step) xs)) / real_of_int step"
  proof (intro allI impI)
    fix k assume k: "k < length (map mean ?ws)"
    then have k': "k < (length xs - 1) div s" using len by simp
    then have "Suc k \<le> (length xs - 1) div s" by simp
    then have "Suc k * s \<le> length xs - 1"
      using s(1) by (simp only: less_eq_div_iff_mult_less_eq)
    then have "(k + 1) * s \<le> length xs - 1" by simp
    then have b: "(k + 1) * s < length xs" using s(1) by (cases xs) auto
    have w: "?ws ! k = take s (drop (k * s) xs)"
      using nth_followed_windows [OF s(1)] k by simp
    have "length (take s (drop (k * s) xs)) = s" using b by simp
    then have "mean (?ws ! k) = sum_list (take s (drop (k * s) xs)) / real s"
      by (simp add: w mean_def)
    then show "(k + 1) * nat step < length xs
              \<and> map mean ?ws ! k
                  = sum_list (take (nat step) (drop (k * nat step) xs)) / real_of_int step"
      using b k s(2) by simp
  qed
  show ?thesis using res l1 l2 l3 by blast
qed

theorem step_average_length_witness:
  "(1::int) \<le> 4
   \<and> (\<exists>ys. step_average [1, 2, 3, 4, 5, 6, 7, 8] 4 = Inr ys
         \<and> int (length ys) = (int (length [1, 2, 3, 4, 5, 6, 7, 8 :: real]) - 1) div 4
         \<and> length ys = 1)"
  using step_average_length [of 4 "[1, 2, 3, 4, 5, 6, 7, 8]"] by auto

text \<open>
  The claim as stated includes the empty list, where the floor division
  \<open>(0 - 1) // 1\<close> is \<open>-1\<close> and the result has length 0.
\<close>

theorem step_average_length_counterexample:
  "step_average [] 1 = Inr []
   \<and> int (length ([] :: real list)) \<noteq> (int (length ([] :: real list)) - 1) div 1"
  by (simp add: step_average_def)

text \<open>
  Claim C7, as amended: \<^verbatim>\<open>step_average\<close> fails when \<open>step = 0\<close> and the input
  is not empty, with ZeroDivisionError. On the empty list it returns the empty list for
  every step, and for a negative step it fails on no input: it returns what it returns
  for \<open>- step\<close>, since \<open>n % step = 0\<close> exactly when \<open>n % (- step) = 0\<close>.
\<close>

theorem step_average_nonpositive_step:
  "(xs \<noteq> [] \<longrightarrow> step_average xs 0 = Inl ZeroDivisionError)
   \<and> step_average [] step = Inr []
   \<and> (step < 0 \<longrightarrow> step_average xs step = step_average xs (- step)
         \<and> (\<exists>ys. step_average xs step = Inr ys))"
proof -
  have zero: "xs \<noteq> [] \<longrightarrow> step_average xs 0 = Inl ZeroDivisionError"
    by (cases xs) (simp_all add: step_average_def)
  have empty: "step_average [] step = Inr []"
    by (simp add: step_average_def)
  have neg: "step < 0 \<longrightarrow> step_average xs step = step_average xs (- step)
         \<and> (\<exists>ys. step_average xs step = Inr ys)"
  proof
    assume lt: "step < 0"
    have eq: "step_average xs step = step_average xs (- step)"
      using step_average_loop_minus [of "- step" 0 xs "[]" "[]"] by (simp add: step_average_def)
    have "0 < nat (- step)" using lt by simp
    then have "step_average xs (int (nat (- step))) =
                 Inr (map mean (followed_windows (nat (- step)) xs))"
      by (rule step_average_windows)
    then have "\<exists>ys. step_average xs (- step) = Inr ys" using lt by simp
    then show "step_average xs step = step_average xs (- step)
         \<and> (\<exists>ys. step_average xs step = Inr ys)" using eq by simp
  qed
  show ?thesis using zero empty neg by blast
qed

theorem step_average_nonpositive_step_witness:
  "step_average [1, 2, 3] 0 = Inl ZeroDivisionError
   \<and> step_average [] (- 1) = Inr []
   \<and> step_average [1, 2, 3] (- 1) = step_average [1, 2, 3] 1
   \<and> (\<exists>ys. step_average [1, 2, 3] (- 1) = Inr ys)"
  using step_average_nonpositive_step [of "[1, 2, 3]" "- 1"]
  by (simp add: step_average_def get_list_average_def)

text \<open>With the step \<open>-1\<close> the call returns a list.\<close>

theorem step_average_negative_step_counterexample:
  "step_average [1, 2, 3] (- 1) = Inr [1, 2]"
  by (simp add: step_average_def get_list_average_def)

section \<open>Float arithmetic\<close>

subsection \<open>Rounding to the nearest integer\<close>

lemma round_even_of_int [simp]: "round_even (real_of_int k) = k"
  by (simp add: round_even_def)

lemma round_even_numeral [simp]: "round_even (numeral n) = numeral n"
  using round_even_of_int [of "numeral n"] by simp

lemma round_even_zero [simp]: "round_even 0 = 0"
  using round_even_of_int [of 0] by simp

lemma round_even_of_nat [simp]: "round_even (real k) = int k"
  using round_even_of_int [of "int k"] by simp

lemma round_even_bounds: "\<lfloor>m\<rfloor> \<le> round_even m" "round_even m \<le> \<lfloor>m\<rfloor> + 1"
  by (simp_all add: round_even_def Let_def)

lemma round_even_mono: "a \<le> b \<Longrightarrow> round_even a \<le> round_even b"
proof -
  assume ab: "a \<le> b"
  show ?thesis
  proof (cases "\<lfloor>a\<rfloor> = \<lfloor>b\<rfloor>")
    case True
    then show ?thesis using ab by (auto simp add: round_even_def Let_def)
  next
    case False
    then have "\<lfloor>a\<rfloor> + 1 \<le> \<lfloor>b\<rfloor>" using floor_mono [OF ab] by linarith
    then show ?thesis using round_even_bounds(2) [of a] round_even_bounds(1) [of b] by linarith
  qed
qed

lemma round_even_nonneg: "0 \<le> m \<Longrightarrow> 0 \<le> round_even m"
  using round_even_mono [of 0 m] by simp

subsection \<open>Rounding a magnitude\<close>

lemma expo_mono: "0 < a \<Longrightarrow> a \<le> b \<Longrightarrow> expo a \<le> expo b"
  unfolding expo_def by (intro max.mono floor_mono) simp_all

lemma expo_upper: "0 < a \<Longrightarrow> a < 2 powr real_of_int (expo a + 1)"
proof -
  assume a: "0 < a"
  have "a < 2 powr (real_of_int \<lfloor>log 2 a\<rfloor> + 1)"
    using floor_log_eq_powr_iff [of a 2 "\<lfloor>log 2 a\<rfloor>"] a by simp
  then have "a < 2 powr real_of_int (\<lfloor>log 2 a\<rfloor> + 1)"
    by (simp add: add.commute)
  also have "\<dots> \<le> 2 powr real_of_int (expo a + 1)"
    by (intro powr_mono) (simp_all add: expo_def)
  finally show ?thesis .
qed

lemma expo_lower: "0 < a \<Longrightarrow> - 1022 < expo a \<Longrightarrow> 2 powr real_of_int (expo a) \<le> a"
proof -
  assume a: "0 < a" and e: "- 1022 < expo a"
  then have "expo a = \<lfloor>log 2 a\<rfloor>" by (simp add: expo_def max_def split: if_splits)
  then show ?thesis using floor_log_eq_powr_iff [of a 2 "\<lfloor>log 2 a\<rfloor>"] a by simp
qed

lemma round_mag_nonneg: "0 \<le> a \<Longrightarrow> 0 \<le> round_mag a"
  unfolding round_mag_def by (intro mult_nonneg_nonneg) (simp_all add: round_even_nonneg)

lemma round_mag_le_top:
  assumes "0 < a"
  shows "round_mag a \<le> 2 powr real_of_int (expo a + 1)"
proof -
  let ?u = "2 powr real_of_int (expo a - 52)"
  have u: "0 < ?u" by simp
  have top: "2 powr real_of_int (expo a + 1) = 2 ^ 53 * ?u"
  proof -
    have "real_of_int (expo a + 1) = 53 + real_of_int (expo a - 52)" by simp
    then have "2 powr real_of_int (expo a + 1) = 2 powr (53 + real_of_int (expo a - 52))"
      by (simp only:)
    also have "\<dots> = 2 powr 53 * ?u" by (rule powr_add)
    finally show ?thesis by simp
  qed
  have "a < 2 ^ 53 * ?u" using expo_upper [OF assms] by (simp only: top)
  then have "a / ?u \<le> 2 ^ 53"
    using u by (simp add: pos_divide_le_eq)
  then have "round_even (a / ?u) \<le> round_even (real_of_int (2 ^ 53))"
    by (intro round_even_mono) simp
  then have "round_even (a / ?u) \<le> 2 ^ 53" by simp
  then have "real_of_int (round_even (a / ?u)) \<le> 2 ^ 53"
    by (metis of_int_le_iff of_int_numeral of_int_power)
  then show ?thesis
    unfolding round_mag_def top using u by (intro mult_right_mono) simp_all
qed

lemma round_mag_ge_bottom:
  assumes "0 < a" "- 1022 < expo a"
  shows "2 powr real_of_int (expo a) \<le> round_mag a"
proof -
  let ?u = "2 powr real_of_int (expo a - 52)"
  have u: "0 < ?u" by simp
  have bot: "2 powr real_of_int (expo a) = 2 ^ 52 * ?u"
  proof -
    have "real_of_int (expo a) = 52 + real_of_int (expo a - 52)" by simp
    then have "2 powr real_of_int (expo a) = 2 powr (52 + real_of_int (expo a - 52))"
      by (simp only:)
    also have "\<dots> = 2 powr 52 * ?u" by (rule powr_add)
    finally show ?thesis by simp
  qed
  have "2 ^ 52 * ?u \<le> a" using expo_lower [OF assms] by (simp only: bot)
  then have "2 ^ 52 \<le> a / ?u"
    using u by (simp add: pos_le_divide_eq)
  then have "round_even (real_of_int (2 ^ 52)) \<le> round_even (a / ?u)"
    by (intro round_even_mono) simp
  then have "2 ^ 52 \<le> round_even (a / ?u)" by simp
  then have "2 ^ 52 \<le> real_of_int (round_even (a / ?u))"
    by (metis of_int_le_iff of_int_numeral of_int_power)
  then show ?thesis
    unfolding round_mag_def bot using u by (intro mult_right_mono) simp_all
qed

text \<open>Rounding is monotone: within a binade, and across binades.\<close>

lemma round_mag_mono:
  assumes "0 < a" "a \<le> b"
  shows "round_mag a \<le> round_mag b"
proof (cases "expo a = expo b")
  case True
  have "a / 2 powr real_of_int (expo b - 52) \<le> b / 2 powr real_of_int (expo b - 52)"
    using assms(2) by (simp add: divide_right_mono)
  then have "round_even (a / 2 powr real_of_int (expo b - 52))
               \<le> round_even (b / 2 powr real_of_int (expo b - 52))"
    by (rule round_even_mono)
  then show ?thesis
    unfolding round_mag_def True by (intro mult_right_mono) simp_all
next
  case False
  have b: "0 < b" using assms by simp
  have lt: "expo a + 1 \<le> expo b" using False expo_mono [OF assms] by simp
  have low: "- 1022 \<le> expo a" by (simp add: expo_def)
  have "round_mag a \<le> 2 powr real_of_int (expo a + 1)" by (rule round_mag_le_top [OF assms(1)])
  also have "\<dots> \<le> 2 powr real_of_int (expo b)" using lt by (intro powr_mono) simp_all
  also have "\<dots> \<le> round_mag b" using lt low by (intro round_mag_ge_bottom [OF b]) simp
  finally show ?thesis .
qed

text \<open>Evaluating the rounding of a number whose binade is known.\<close>

lemma expo_nat:
  assumes "2 ^ n \<le> a" "a < 2 ^ Suc n"
  shows "expo a = int n"
proof -
  have a: "0 < a" using assms(1) by (smt (verit) zero_less_power)
  have "\<lfloor>log 2 a\<rfloor> = int n"
    using assms a floor_log_eq_powr_iff [of a 2 "int n"]
    by (simp add: powr_realpow powr_add)
  then show ?thesis by (simp add: expo_def)
qed

lemma round_mag_small:
  assumes "2 ^ n \<le> a" "a < 2 ^ Suc n" "n \<le> 52"
  shows "round_mag a = real_of_int (round_even (a * 2 ^ (52 - n))) / 2 ^ (52 - n)"
proof -
  have "real_of_int (int n - 52) = - real (52 - n)" using assms(3) by simp
  then have "2 powr real_of_int (int n - 52) = 2 powr (- real (52 - n))" by (simp only:)
  also have "\<dots> = 1 / 2 ^ (52 - n)" by (simp add: powr_minus powr_realpow divide_simps)
  finally have u: "2 powr real_of_int (expo a - 52) = 1 / 2 ^ (52 - n)"
    using expo_nat [OF assms(1,2)] by simp
  show ?thesis unfolding round_mag_def u by simp
qed

lemma round_mag_large:
  assumes "2 ^ n \<le> a" "a < 2 ^ Suc n" "52 \<le> n"
  shows "round_mag a = real_of_int (round_even (a / 2 ^ (n - 52))) * 2 ^ (n - 52)"
proof -
  have "real_of_int (int n - 52) = real (n - 52)" using assms(3) by simp
  then have "2 powr real_of_int (int n - 52) = 2 powr real (n - 52)" by (simp only:)
  also have "\<dots> = 2 ^ (n - 52)" by (simp add: powr_realpow)
  finally have u: "2 powr real_of_int (expo a - 52) = 2 ^ (n - 52)"
    using expo_nat [OF assms(1,2)] by simp
  show ?thesis unfolding round_mag_def u by simp
qed

text \<open>A natural number up to \<open>2 ^ 53\<close> is a float.\<close>

lemma round_mag_nat:
  assumes "0 < k" "k \<le> 2 ^ 53"
  shows "round_mag (real k) = real k"
proof -
  obtain n where n: "2 ^ n \<le> k" "k < 2 ^ (n + 1)"
    using ex_power_ivl1 [of 2 k] assms(1) by auto
  have "real (2 ^ n) \<le> real k" using n(1) by (simp only: of_nat_le_iff)
  then have lo: "(2 :: real) ^ n \<le> real k" by simp
  have "real k < real (2 ^ (n + 1))" using n(2) by (simp only: of_nat_less_iff)
  then have hi: "real k < 2 ^ Suc n" by simp
  show ?thesis
  proof (cases "n \<le> 52")
    case True
    have "real k * 2 ^ (52 - n) = real (k * 2 ^ (52 - n))" by simp
    then have "round_even (real k * 2 ^ (52 - n)) = int (k * 2 ^ (52 - n))"
      by (simp only: round_even_of_nat)
    then show ?thesis by (simp add: round_mag_small [OF lo hi True])
  next
    case False
    have "(2 :: nat) ^ 53 \<le> 2 ^ n" using False by (intro power_increasing) simp_all
    then have k: "k = 2 ^ 53" using n(1) assms(2) by linarith
    have "(2 :: nat) ^ n \<le> 2 ^ 53" using n(1) k by (simp only:)
    then have "n \<le> 53" by (rule power_le_imp_le_exp [rotated]) simp
    then have n53: "n = 53" using False by simp
    have "round_mag (real k) = real_of_int (round_even (real k / 2 ^ (n - 52))) * 2 ^ (n - 52)"
      by (rule round_mag_large [OF lo hi]) (use False in simp)
    then show ?thesis unfolding n53 k by simp
  qed
qed

subsection \<open>Rounding to a float\<close>

lemma round_double_zero [simp]: "round_double 0 = Finite 0"
  by (simp add: round_double_def)

lemma round_double_not_NaN [simp]: "round_double x \<noteq> NaN"
  by (simp add: round_double_def Let_def)

lemma round_double_nat: "k \<le> 2 ^ 53 \<Longrightarrow> round_double (real k) = Finite (real k)"
proof (cases "k = 0")
  case True
  then show ?thesis by simp
next
  case False
  assume le: "k \<le> 2 ^ 53"
  have r: "round_mag (real k) = real k" using round_mag_nat [of k] False le by simp
  have "real k \<le> real (2 ^ 53)" using le by (simp only: of_nat_le_iff)
  then have "real k < 2 ^ 1024" by simp
  then show ?thesis using False r by (simp add: round_double_def)
qed

lemma round_double_numeral:
  "(numeral n :: nat) \<le> 2 ^ 53 \<Longrightarrow> round_double (numeral n) = Finite (numeral n)"
  using round_double_nat [of "numeral n"] by simp

lemma round_double_one [simp]: "round_double 1 = Finite 1"
  using round_double_nat [of 1] by simp

lemma Finite_le_Finite [simp]: "(Finite x \<le> Finite y) = (x \<le> y)"
  by (simp add: less_eq_pyfloat_def)

lemma Finite_less_Finite [simp]: "(Finite x < Finite y) = (x < y)"
  by (auto simp add: less_pyfloat_def)


lemma pyfloat_le_refl: "a \<noteq> NaN \<Longrightarrow> (a :: pyfloat) \<le> a"
  unfolding less_eq_pyfloat_def by (cases a) simp_all

lemma round_double_mono:
  assumes "x \<le> y"
  shows "round_double x \<le> round_double y"
proof -
  consider "x = y" | "x < y" "0 < x" | "x < y" "y < 0" | "x < y" "x \<le> 0" "0 \<le> y"
    using assms by linarith
  then show ?thesis
  proof cases
    case 1
    then show ?thesis by (simp add: pyfloat_le_refl)
  next
    case 2
    then have "round_mag \<bar>x\<bar> \<le> round_mag \<bar>y\<bar>" by (intro round_mag_mono) simp_all
    then show ?thesis using 2 by (simp add: round_double_def Let_def less_eq_pyfloat_def)
  next
    case 3
    then have "round_mag \<bar>y\<bar> \<le> round_mag \<bar>x\<bar>" by (intro round_mag_mono) simp_all
    then show ?thesis using 3 by (simp add: round_double_def Let_def less_eq_pyfloat_def)
  next
    case 4
    have "0 \<le> round_mag \<bar>x\<bar>" "0 \<le> round_mag \<bar>y\<bar>" by (simp_all add: round_mag_nonneg)
    then show ?thesis using 4 by (simp add: round_double_def Let_def less_eq_pyfloat_def)
  qed
qed

text \<open>An integer of magnitude up to \<open>2 ^ 1023\<close> converts to a finite float.\<close>

lemma round_double_finite:
  assumes "\<bar>x\<bar> \<le> 2 ^ 1023"
  shows "\<exists>y. round_double x = Finite y"
proof (cases "x = 0")
  case True
  then show ?thesis by simp
next
  case False
  then have pos: "0 < \<bar>x\<bar>" by simp
  have "round_mag \<bar>x\<bar> \<le> round_mag (2 ^ 1023)" by (rule round_mag_mono [OF pos assms])
  also have "round_mag (2 ^ 1023) = 2 ^ 1023"
    using round_mag_large [of 1023 "2 ^ 1023"] by simp
  finally have "round_mag \<bar>x\<bar> < 2 ^ 1024" by simp
  then show ?thesis using False by (simp add: round_double_def Let_def)
qed

lemma float_of_int_finite:
  assumes "\<bar>i\<bar> \<le> 2 ^ 1023"
  shows "float_of_int i = Inr (round_double (real_of_int i))"
proof -
  have "\<bar>real_of_int i\<bar> \<le> real_of_int (2 ^ 1023)"
    using assms by (metis of_int_abs of_int_le_iff)
  then have "\<bar>real_of_int i\<bar> \<le> 2 ^ 1023" by simp
  then obtain y where "round_double (real_of_int i) = Finite y"
    using round_double_finite by blast
  then show ?thesis by (simp add: float_of_int_def)
qed

subsection \<open>The operators are monotone\<close>

lemma py_add_mono: "p \<le> q \<Longrightarrow> py_add (Finite m) p \<le> py_add (Finite m) q"
proof -
  assume pq: "p \<le> q"
  have r: "round_double a \<le> PosInf" "NegInf \<le> round_double a" for a
    by (cases "round_double a"; simp add: less_eq_pyfloat_def)+
  show ?thesis
    using pq by (cases p; cases q) (simp_all add: less_eq_pyfloat_def r [unfolded less_eq_pyfloat_def]
      round_double_mono [unfolded less_eq_pyfloat_def])
qed

lemma py_mul_mono:
  "0 \<le> c \<Longrightarrow> x \<le> y \<Longrightarrow> py_mul (Finite x) (Finite c) \<le> py_mul (Finite y) (Finite c)"
  by (simp add: round_double_mono mult_right_mono)

text \<open>
  Between \<open>2 ^ 53\<close> and \<open>2 ^ 54\<close> the floats are the even integers: a number there is
  rounded to the nearest of them, a tie going to the one whose half is even.
\<close>

lemma round_double_binade53:
  assumes "2 ^ 53 \<le> x" "x < 2 ^ 54"
  shows "round_double x = Finite (real_of_int (round_even (x / 2)) * 2)"
proof -
  have r: "round_mag x = real_of_int (round_even (x / 2)) * 2"
    using round_mag_large [of 53 x] assms by simp
  have "x / 2 \<le> 2 ^ 53" using assms(2) by simp
  then have "round_even (x / 2) \<le> round_even (real_of_int (2 ^ 53))"
    by (intro round_even_mono) simp
  then have "round_even (x / 2) \<le> 2 ^ 53" by simp
  then have "real_of_int (round_even (x / 2)) \<le> 2 ^ 53"
    by (metis of_int_le_iff of_int_numeral of_int_power)
  then have "round_mag x < 2 ^ 1024" unfolding r by simp
  moreover have "0 < x" using assms(1) by (smt (verit) zero_less_power)
  ultimately show ?thesis using r by (simp add: round_double_def)
qed

lemma round_double_samples:
  "round_double 10000000000000000 = Finite 10000000000000000"
  "round_double 10000000000000001 = Finite 10000000000000000"
  "round_double 10000000000000002 = Finite 10000000000000002"
  "round_double 10000000000000003 = Finite 10000000000000004"
     apply (simp_all add: round_double_binade53 round_even_def)
  done

section \<open>Normalizer\<close>

lemma py_max_Max: "xs \<noteq> [] \<Longrightarrow> py_max xs = Inr (Max (set xs))"
proof (cases xs)
  case Nil
  assume "xs \<noteq> []"
  with Nil show ?thesis by simp
next
  case (Cons x rest)
  have "(\<lambda>y m. if y > m then y else m) = (max :: real \<Rightarrow> real \<Rightarrow> real)"
    by (intro ext) (simp add: max_def)
  then have "py_max (x # rest) = Inr (fold max rest x)" by simp
  then show ?thesis unfolding Cons by (simp only: Max.set_eq_fold)
qed

lemma py_min_Min: "xs \<noteq> [] \<Longrightarrow> py_min xs = Inr (Min (set xs))"
proof (cases xs)
  case Nil
  assume "xs \<noteq> []"
  with Nil show ?thesis by simp
next
  case (Cons x rest)
  have "(\<lambda>y m. if y < m then y else m) = (min :: real \<Rightarrow> real \<Rightarrow> real)"
    by (intro ext) (simp add: min_def)
  then have "py_min (x # rest) = Inr (fold min rest x)" by simp
  then show ?thesis unfolding Cons by (simp only: Min.set_eq_fold)
qed

lemma float_of_int_float_int: "\<bar>i\<bar> \<le> 2 ^ 1023 \<Longrightarrow> float_of_int i = Inr (float_int i)"
  by (simp add: float_of_int_finite float_int_def)

lemma float_int_finite: "\<bar>i\<bar> \<le> 2 ^ 1023 \<Longrightarrow> \<exists>y. float_int i = Finite y"
proof -
  assume "\<bar>i\<bar> \<le> 2 ^ 1023"
  then have "\<bar>real_of_int i\<bar> \<le> real_of_int (2 ^ 1023)" by (metis of_int_abs of_int_le_iff)
  then have "\<bar>real_of_int i\<bar> \<le> 2 ^ 1023" by simp
  then show ?thesis unfolding float_int_def by (rule round_double_finite)
qed

lemma float_int_mono: "i \<le> j \<Longrightarrow> float_int i \<le> float_int j"
  unfolding float_int_def by (intro round_double_mono) simp

lemma float_int_zero [simp]: "float_int 0 = Finite 0"
  by (simp add: float_int_def)

lemma float_int_one [simp]: "float_int 1 = Finite 1"
  by (simp add: float_int_def)

lemma float_int_pos:
  assumes "1 \<le> i" "i \<le> 2 ^ 1023"
  shows "\<exists>y. float_int i = Finite y \<and> 1 \<le> y"
proof -
  obtain y where y: "float_int i = Finite y" using float_int_finite [of i] assms by auto
  have "float_int 1 \<le> float_int i" by (rule float_int_mono [OF assms(1)])
  then show ?thesis using y by simp
qed

lemma midi_normalization_loop_upto:
  assumes "\<bar>i\<bar> \<le> 2 ^ 1022" "\<bar>hi\<bar> \<le> 2 ^ 1022"
  shows "midi_normalization_loop lowest increment i hi acc =
     Inr (acc @ map (\<lambda>j. py_add (Finite lowest) (py_mul (float_int j) increment)) [i..hi - 1])"
  using assms
proof (induction lowest increment i hi acc rule: midi_normalization_loop.induct)
  case (1 lowest increment i hi acc)
  show ?case
  proof (cases "i < hi")
    case True
    have conv: "float_of_int i = Inr (float_int i)"
      using "1.prems"(1) by (intro float_of_int_float_int) simp
    have next_ok: "\<bar>i + 1\<bar> \<le> 2 ^ 1022" using True "1.prems" by simp
    have upto: "[i..hi - 1] = i # [i + 1..hi - 1]" using True by (simp add: upto_rec1)
    have ih: "midi_normalization_loop lowest increment (i + 1) hi
                (acc @ [py_add (Finite lowest) (py_mul (float_int i) increment)]) =
              Inr ((acc @ [py_add (Finite lowest) (py_mul (float_int i) increment)]) @
                   map (\<lambda>j. py_add (Finite lowest) (py_mul (float_int j) increment))
                     [i + 1..hi - 1])"
      by (rule "1.IH" [OF True conv next_ok "1.prems"(2)])
    show ?thesis
      using True ih
      by (simp add: midi_normalization_loop.simps [of lowest increment i hi acc] conv upto)
  next
    case False
    then show ?thesis
      by (simp add: midi_normalization_loop.simps [of lowest increment i hi acc])
  qed
qed

text \<open>The increment is a float that is not negative, or the positive infinity.\<close>

lemma increment_cases:
  assumes "lowest \<le> highest" "0 < d"
  shows "\<exists>increment. py_truediv (py_sub (Finite highest) (Finite lowest)) (Finite d) = Inr increment
           \<and> (increment = PosInf \<or> (\<exists>c. increment = Finite c \<and> 0 \<le> c))"
proof -
  have sub: "py_sub (Finite highest) (Finite lowest) = round_double (highest - lowest)"
    by (simp add: py_sub_def)
  have "round_double 0 \<le> round_double (highest - lowest)"
    using assms(1) by (intro round_double_mono) simp
  then have r0: "Finite 0 \<le> round_double (highest - lowest)" by simp
  show ?thesis
  proof (cases "round_double (highest - lowest)")
    case (Finite r)
    then have r: "0 \<le> r" using r0 by simp
    have "round_double 0 \<le> round_double (r / d)"
      using r assms(2) by (intro round_double_mono) simp
    then have q0: "Finite 0 \<le> round_double (r / d)" by simp
    show ?thesis
    proof (cases "round_double (r / d)")
      case (Finite c)
      then show ?thesis using q0 sub \<open>round_double (highest - lowest) = Finite r\<close> assms(2)
        by simp
    next
      case PosInf
      then show ?thesis using sub \<open>round_double (highest - lowest) = Finite r\<close> assms(2) by simp
    next
      case NegInf
      then show ?thesis using q0 by (simp add: less_eq_pyfloat_def)
    next
      case NaN
      then show ?thesis by simp
    qed
  next
    case PosInf
    then show ?thesis using sub assms(2) by simp
  next
    case NegInf
    then show ?thesis using r0 by (simp add: less_eq_pyfloat_def)
  next
    case NaN
    then show ?thesis by simp
  qed
qed

lemma midi_normalization_closed:
  assumes "csv_values \<noteq> []" "midi_note_min < midi_note_max"
    and "\<bar>midi_note_min\<bar> \<le> 2 ^ 1022" "\<bar>midi_note_max\<bar> \<le> 2 ^ 1022"
  shows "\<exists>increment.
           py_truediv (py_sub (Finite (Max (set csv_values))) (Finite (Min (set csv_values))))
             (float_int (midi_note_max - midi_note_min)) = Inr increment
         \<and> (increment = PosInf \<or> (\<exists>c. increment = Finite c \<and> 0 \<le> c))
         \<and> midi_normalization csv_values midi_note_min midi_note_max =
             Inr (map (\<lambda>j. py_add (Finite (Min (set csv_values))) (py_mul (float_int j) increment))
                    [midi_note_min..midi_note_max - 1])"
proof -
  let ?total = "midi_note_max - midi_note_min"
  have tot: "1 \<le> ?total" "?total \<le> 2 ^ 1023" using assms(2,3,4) by simp_all
  then obtain d where d: "float_int ?total = Finite d" "1 \<le> d" using float_int_pos by blast
  have conv: "float_of_int ?total = Inr (Finite d)"
    using float_of_int_float_int [of ?total] tot d(1) by simp
  have "Min (set csv_values) \<le> Max (set csv_values)"
    using assms(1) by (simp add: Min_le_iff)
  then obtain increment where inc:
    "py_truediv (py_sub (Finite (Max (set csv_values))) (Finite (Min (set csv_values)))) (Finite d)
       = Inr increment"
    "increment = PosInf \<or> (\<exists>c. increment = Finite c \<and> 0 \<le> c)"
    using increment_cases [of "Min (set csv_values)" "Max (set csv_values)" d] d(2) by auto
  have "midi_normalization csv_values midi_note_min midi_note_max =
          midi_normalization_loop (Min (set csv_values)) increment midi_note_min midi_note_max []"
    using assms(1) conv inc(1)
    by (simp add: midi_normalization_def py_max_Max py_min_Min)
  also have "\<dots> = Inr ([] @ map (\<lambda>j. py_add (Finite (Min (set csv_values)))
                                      (py_mul (float_int j) increment))
                            [midi_note_min..midi_note_max - 1])"
    by (rule midi_normalization_loop_upto [OF assms(3,4)])
  finally show ?thesis using inc d(1) by auto
qed

text \<open>
  Claim C4, as amended: for every non-empty list of values and integers
  \<open>midi_note_min < midi_note_max\<close> of magnitude up to \<open>2 ^ 1022\<close> (they must convert
  to floats), \<^verbatim>\<open>midi_normalization\<close> returns \<open>midi_note_max - midi_note_min\<close>
  thresholds. Threshold \<open>k\<close> is \<open>min(values) + (midi_note_min + k) * increment\<close> with
  \<open>increment = (max(values) - min(values)) / (midi_note_max - midi_note_min)\<close>, every
  operation rounded to the nearest float. When the increment is positive and finite the
  thresholds are ascending, each at most the next, and not always strictly; when all the
  values are equal, every threshold is \<open>min(values)\<close>.
\<close>

theorem midi_normalization_thresholds:
  assumes "csv_values \<noteq> []" and "midi_note_min < midi_note_max"
    and "\<bar>midi_note_min\<bar> \<le> 2 ^ 1022" and "\<bar>midi_note_max\<bar> \<le> 2 ^ 1022"
  shows "\<exists>increment thresholds.
           py_truediv (py_sub (Finite (Max (set csv_values))) (Finite (Min (set csv_values))))
             (float_int (midi_note_max - midi_note_min)) = Inr increment
         \<and> midi_normalization csv_values midi_note_min midi_note_max = Inr thresholds
         \<and> int (length thresholds) = midi_note_max - midi_note_min
         \<and> (\<forall>k<length thresholds.
               thresholds ! k =
                 py_add (Finite (Min (set csv_values)))
                   (py_mul (float_int (midi_note_min + int k)) increment))
         \<and> (Finite 0 < increment \<and> increment \<noteq> PosInf \<longrightarrow> sorted_wrt (\<le>) thresholds)
         \<and> ((\<forall>v\<in>set csv_values. \<forall>w\<in>set csv_values. v = w) \<and> is_float (Min (set csv_values))
               \<longrightarrow> (\<forall>t\<in>set thresholds. t = Finite (Min (set csv_values))))"
proof -
  define lowest where "lowest = Min (set csv_values)"
  define f where "f = (\<lambda>increment j. py_add (Finite lowest) (py_mul (float_int j) increment))"
  obtain increment where inc:
    "py_truediv (py_sub (Finite (Max (set csv_values))) (Finite lowest))
       (float_int (midi_note_max - midi_note_min)) = Inr increment"
    "increment = PosInf \<or> (\<exists>c. increment = Finite c \<and> 0 \<le> c)"
    "midi_normalization csv_values midi_note_min midi_note_max =
       Inr (map (f increment) [midi_note_min..midi_note_max - 1])"
    using midi_normalization_closed [OF assms] unfolding lowest_def f_def by blast
  define thresholds where "thresholds = map (f increment) [midi_note_min..midi_note_max - 1]"
  have len: "int (length thresholds) = midi_note_max - midi_note_min"
    using assms(2) by (simp add: thresholds_def)
  have idx: "[midi_note_min..midi_note_max - 1] ! k = midi_note_min + int k"
    if "k < length thresholds" for k
    using that by (simp add: thresholds_def nth_upto)
  have nth: "thresholds ! k = f increment (midi_note_min + int k)"
    if "k < length thresholds" for k
    using that idx [OF that] by (simp add: thresholds_def)
  have bound: "\<bar>midi_note_min + int k\<bar> \<le> 2 ^ 1023" if "k < length thresholds" for k
  proof -
    have "int k < midi_note_max - midi_note_min" using that len by simp
    then show ?thesis using assms(3,4) by simp
  qed
  have asc: "sorted_wrt (\<le>) thresholds" if pos: "Finite 0 < increment" and fin: "increment \<noteq> PosInf"
  proof -
    obtain c where c: "increment = Finite c" "0 \<le> c" using inc(2) fin by blast
    have "thresholds ! i \<le> thresholds ! j" if ij: "i < j" "j < length thresholds" for i j
    proof -
      obtain x where x: "float_int (midi_note_min + int i) = Finite x"
        using float_int_finite [OF bound [of i]] ij by auto
      obtain y where y: "float_int (midi_note_min + int j) = Finite y"
        using float_int_finite [OF bound [OF ij(2)]] by auto
      have "float_int (midi_note_min + int i) \<le> float_int (midi_note_min + int j)"
        using ij(1) by (intro float_int_mono) simp
      then have "x \<le> y" using x y by simp
      then have "py_mul (Finite x) (Finite c) \<le> py_mul (Finite y) (Finite c)"
        by (rule py_mul_mono [OF c(2)])
      then have "f increment (midi_note_min + int i) \<le> f increment (midi_note_min + int j)"
        unfolding f_def x y c(1) by (rule py_add_mono)
      then show ?thesis using nth ij by simp
    qed
    then show ?thesis by (simp add: sorted_wrt_iff_nth_less)
  qed
  have const: "\<forall>t\<in>set thresholds. t = Finite lowest"
    if eq: "\<forall>v\<in>set csv_values. \<forall>w\<in>set csv_values. v = w" and fl: "is_float lowest"
  proof
    fix t assume "t \<in> set thresholds"
    then obtain k where k: "k < length thresholds" "t = thresholds ! k"
      by (auto simp add: in_set_conv_nth)
    have "Max (set csv_values) \<in> set csv_values" "Min (set csv_values) \<in> set csv_values"
      using assms(1) by (simp_all add: Max_in Min_in)
    then have "Max (set csv_values) = lowest" using eq unfolding lowest_def by blast
    moreover have tot: "1 \<le> midi_note_max - midi_note_min"
      "midi_note_max - midi_note_min \<le> 2 ^ 1023"
      using assms(2,3,4) by simp_all
    moreover obtain d where d: "float_int (midi_note_max - midi_note_min) = Finite d" "1 \<le> d"
      using float_int_pos [OF tot] by blast
    ultimately have zero: "increment = Finite 0"
      using inc(1) by (simp add: py_sub_def)
    obtain x where "float_int (midi_note_min + int k) = Finite x"
      using float_int_finite [OF bound [OF k(1)]] by blast
    then have "f increment (midi_note_min + int k) = Finite lowest"
      using fl zero by (simp add: f_def is_float_def)
    then show "t = Finite lowest" using k nth by simp
  qed
  show ?thesis
    using inc(1) inc(3) len nth asc const unfolding thresholds_def f_def lowest_def by blast
qed

theorem midi_normalization_thresholds_witness:
  "[10, 20, 30 :: real] \<noteq> [] \<and> (0 :: int) < 2 \<and> \<bar>0 :: int\<bar> \<le> 2 ^ 1022 \<and> \<bar>2 :: int\<bar> \<le> 2 ^ 1022
   \<and> (\<exists>thresholds. midi_normalization [10, 20, 30] 0 2 = Inr thresholds
         \<and> int (length thresholds) = 2 - 0
         \<and> thresholds ! 1 = Finite 20
         \<and> sorted_wrt (\<le>) thresholds)
   \<and> is_float 5
   \<and> (\<exists>thresholds. midi_normalization [5, 5] 0 2 = Inr thresholds
         \<and> list_all (\<lambda>t. t = Finite 5) thresholds)"
  using midi_normalization_thresholds [of "[10, 20, 30]" 0 2]
    midi_normalization_thresholds [of "[5, 5]" 0 2]
  by (simp add: midi_normalization_def midi_normalization_loop.simps float_of_int_def
      py_sub_def round_double_numeral is_float_def)

text \<open>
  The values \<open>1e16\<close> and \<open>1.0000000000000002e16\<close> give the increment \<open>1.0\<close>, and
  \<open>1e16 + 1.0\<close> rounds to \<open>1e16\<close>: the two thresholds are equal.
\<close>

theorem midi_normalization_not_strict_counterexample:
  "midi_normalization [10000000000000000, 10000000000000002] 0 2
     = Inr [Finite 10000000000000000, Finite 10000000000000000]
   \<and> py_truediv (py_sub (Finite 10000000000000002) (Finite 10000000000000000)) (float_int (2 - 0))
       = Inr (Finite 1)
   \<and> Finite 0 < Finite 1
   \<and> \<not> sorted_wrt (<) [Finite 10000000000000000, Finite 10000000000000000]"
  by (simp add: midi_normalization_def midi_normalization_loop.simps float_of_int_def
      py_sub_def round_double_numeral round_double_samples float_int_def)

section \<open>Bucketizer\<close>

lemma convert_sequence_inner_None_iff:
  "(convert_sequence_inner t increments num = None) = (\<forall>i\<in>set increments. \<not> t \<le> i)"
  by (induction increments arbitrary: num) auto

lemma convert_sequence_inner_Some_iff:
  "(convert_sequence_inner t increments num = Some r) =
     (\<exists>p<length increments. r = num + p \<and> t \<le> increments ! p
        \<and> (\<forall>q<p. \<not> t \<le> increments ! q))"
proof (induction increments arbitrary: num)
  case Nil
  show ?case by simp
next
  case (Cons i increments)
  show ?case
  proof (cases "t \<le> i")
    case True
    have "(\<exists>p<length (i # increments). r = num + p \<and> t \<le> (i # increments) ! p
            \<and> (\<forall>q<p. \<not> t \<le> (i # increments) ! q)) = (r = num)"
    proof
      assume "\<exists>p<length (i # increments). r = num + p \<and> t \<le> (i # increments) ! p
            \<and> (\<forall>q<p. \<not> t \<le> (i # increments) ! q)"
      then obtain p where p: "r = num + p" "\<forall>q<p. \<not> t \<le> (i # increments) ! q" by blast
      have "p = 0"
      proof (rule ccontr)
        assume "p \<noteq> 0"
        then have "\<not> t \<le> (i # increments) ! 0" using p(2) by blast
        then show False using True by simp
      qed
      then show "r = num" using p(1) by simp
    next
      assume "r = num"
      then show "\<exists>p<length (i # increments). r = num + p \<and> t \<le> (i # increments) ! p
            \<and> (\<forall>q<p. \<not> t \<le> (i # increments) ! q)"
        using True by (intro exI [of _ 0]) simp
    qed
    then show ?thesis using True by auto
  next
    case False
    have "(\<exists>p<length (i # increments). r = num + p \<and> t \<le> (i # increments) ! p
            \<and> (\<forall>q<p. \<not> t \<le> (i # increments) ! q))
          = (\<exists>p<length increments. r = Suc num + p \<and> t \<le> increments ! p
            \<and> (\<forall>q<p. \<not> t \<le> increments ! q))"
    proof
      assume "\<exists>p<length (i # increments). r = num + p \<and> t \<le> (i # increments) ! p
            \<and> (\<forall>q<p. \<not> t \<le> (i # increments) ! q)"
      then obtain p where p: "p < length (i # increments)" "r = num + p"
        "t \<le> (i # increments) ! p" "\<forall>q<p. \<not> t \<le> (i # increments) ! q" by blast
      then obtain p' where p': "p = Suc p'" using False by (cases p) auto
      have "\<forall>q<p'. \<not> t \<le> increments ! q"
      proof (intro allI impI)
        fix q assume "q < p'"
        then have "\<not> t \<le> (i # increments) ! Suc q" using p(4) p' by blast
        then show "\<not> t \<le> increments ! q" by simp
      qed
      then show "\<exists>p<length increments. r = Suc num + p \<and> t \<le> increments ! p
            \<and> (\<forall>q<p. \<not> t \<le> increments ! q)"
        using p p' by (intro exI [of _ p']) simp
    next
      assume "\<exists>p<length increments. r = Suc num + p \<and> t \<le> increments ! p
            \<and> (\<forall>q<p. \<not> t \<le> increments ! q)"
      then obtain p where p: "p < length increments" "r = Suc num + p"
        "t \<le> increments ! p" "\<forall>q<p. \<not> t \<le> increments ! q" by blast
      have "\<forall>q<Suc p. \<not> t \<le> (i # increments) ! q"
      proof (intro allI impI)
        fix q assume q: "q < Suc p"
        show "\<not> t \<le> (i # increments) ! q"
          using q p(4) False by (cases q) auto
      qed
      then show "\<exists>p<length (i # increments). r = num + p \<and> t \<le> (i # increments) ! p
            \<and> (\<forall>q<p. \<not> t \<le> (i # increments) ! q)"
        using p by (intro exI [of _ "Suc p"]) simp
    qed
    then show ?thesis using False Cons.IH [of "Suc num"] by simp
  qed
qed


lemma convert_sequence_loop_concat:
  "convert_sequence_loop temperatures increments midi_note_min sequence =
     sequence @ concat (map (\<lambda>t. case convert_sequence_inner t increments 0 of
                                   Some num \<Rightarrow> [int num + midi_note_min] | None \<Rightarrow> [])
                            temperatures)"
  by (induction temperatures arbitrary: sequence) (simp_all split: option.split)

lemma convert_sequence_single:
  "convert_sequence [t] increments midi_note_min =
     (case convert_sequence_inner t increments 0 of
        Some num \<Rightarrow> [int num + midi_note_min] | None \<Rightarrow> [])"
  by (simp add: convert_sequence_def split: option.split)

lemma convert_sequence_concat:
  "convert_sequence temperatures increments midi_note_min =
     concat (map (\<lambda>t. convert_sequence [t] increments midi_note_min) temperatures)"
  by (simp add: convert_sequence_def convert_sequence_loop_concat split: option.split)

text \<open>
  What the loops do with any comparison: each value is handled on its own and in order;
  a value \<open>t\<close> with \<open>t \<le> i\<close> false for every increment \<open>i\<close> gives no output
  element; otherwise it gives the first position where \<open>t \<le> i\<close> holds, plus
  \<open>midi_note_min\<close>.
\<close>

lemma convert_sequence_any:
  "convert_sequence temperatures increments midi_note_min =
     concat (map (\<lambda>t. convert_sequence [t] increments midi_note_min) temperatures)
   \<and> ((\<forall>p<length increments. \<not> v \<le> increments ! p)
        \<longrightarrow> convert_sequence [v] increments midi_note_min = [])
   \<and> (\<forall>p<length increments. v \<le> increments ! p \<and> (\<forall>q<p. \<not> v \<le> increments ! q)
        \<longrightarrow> convert_sequence [v] increments midi_note_min = [int p + midi_note_min])
   \<and> (int (length increments) = midi_note_max - midi_note_min
        \<longrightarrow> (\<forall>x\<in>set (convert_sequence temperatures increments midi_note_min).
               midi_note_min \<le> x \<and> x \<le> midi_note_max))"
proof -
  have none: "(\<forall>p<length increments. \<not> v \<le> increments ! p)
        \<longrightarrow> convert_sequence [v] increments midi_note_min = []"
  proof
    assume "\<forall>p<length increments. \<not> v \<le> increments ! p"
    then have "\<forall>i\<in>set increments. \<not> v \<le> i" by (auto simp add: in_set_conv_nth)
    then have "convert_sequence_inner v increments 0 = None"
      by (simp add: convert_sequence_inner_None_iff)
    then show "convert_sequence [v] increments midi_note_min = []"
      by (simp add: convert_sequence_single)
  qed
  have some: "\<forall>p<length increments. v \<le> increments ! p \<and> (\<forall>q<p. \<not> v \<le> increments ! q)
        \<longrightarrow> convert_sequence [v] increments midi_note_min = [int p + midi_note_min]"
  proof (intro allI impI)
    fix p
    assume "p < length increments" "v \<le> increments ! p \<and> (\<forall>q<p. \<not> v \<le> increments ! q)"
    then have "convert_sequence_inner v increments 0 = Some p"
      using convert_sequence_inner_Some_iff [of v increments 0 p] by auto
    then show "convert_sequence [v] increments midi_note_min = [int p + midi_note_min]"
      by (simp add: convert_sequence_single)
  qed
  have range: "int (length increments) = midi_note_max - midi_note_min
        \<longrightarrow> (\<forall>x\<in>set (convert_sequence temperatures increments midi_note_min).
               midi_note_min \<le> x \<and> x \<le> midi_note_max)"
  proof (intro impI ballI)
    fix x
    assume len: "int (length increments) = midi_note_max - midi_note_min"
      and x: "x \<in> set (convert_sequence temperatures increments midi_note_min)"
    from x obtain t where "x \<in> set (convert_sequence [t] increments midi_note_min)"
      by (subst (asm) convert_sequence_concat) auto
    then obtain num where num: "convert_sequence_inner t increments 0 = Some num"
      "x = int num + midi_note_min"
      by (cases "convert_sequence_inner t increments 0")
        (simp_all add: convert_sequence_single)
    then have "num < length increments"
      using convert_sequence_inner_Some_iff [of t increments 0 num] by auto
    then show "midi_note_min \<le> x \<and> x \<le> midi_note_max" using num(2) len by simp
  qed
  show ?thesis using convert_sequence_concat none some range by blast
qed

text \<open>
  Claim C5: \<^verbatim>\<open>convert_sequence\<close> handles each value on its own and in order; a
  value greater than every threshold gives no output element; a value \<open>v\<close> gives
  \<open>p + midi_note_min\<close> where \<open>p\<close> is the first position with \<open>v \<le> increments[p]\<close>
  (a value equal to a threshold takes that position); and with
  \<open>midi_note_max - midi_note_min\<close> thresholds every emitted index lies in
  \<open>[midi_note_min, midi_note_max]\<close>. The first four conjuncts state it for finite
  values and thresholds. The last four state it for floats, infinities and NaN included,
  where a threshold is passed over when \<open>w \<le> thresholds[p]\<close> is false, as it is for
  a NaN.
\<close>

theorem convert_sequence_assign:
  fixes v :: real and w :: pyfloat
  shows "convert_sequence temperatures increments midi_note_min =
     concat (map (\<lambda>t. convert_sequence [t] increments midi_note_min) temperatures)
   \<and> ((\<forall>p<length increments. increments ! p < v)
        \<longrightarrow> convert_sequence [v] increments midi_note_min = [])
   \<and> (\<forall>p<length increments. v \<le> increments ! p \<and> (\<forall>q<p. increments ! q < v)
        \<longrightarrow> convert_sequence [v] increments midi_note_min = [int p + midi_note_min])
   \<and> (int (length increments) = midi_note_max - midi_note_min
        \<longrightarrow> (\<forall>x\<in>set (convert_sequence temperatures increments midi_note_min).
               midi_note_min \<le> x \<and> x \<le> midi_note_max))
   \<and> convert_sequence floats thresholds midi_note_min =
     concat (map (\<lambda>t. convert_sequence [t] thresholds midi_note_min) floats)
   \<and> ((\<forall>p<length thresholds. \<not> w \<le> thresholds ! p)
        \<longrightarrow> convert_sequence [w] thresholds midi_note_min = [])
   \<and> (\<forall>p<length thresholds. w \<le> thresholds ! p \<and> (\<forall>q<p. \<not> w \<le> thresholds ! q)
        \<longrightarrow> convert_sequence [w] thresholds midi_note_min = [int p + midi_note_min])
   \<and> (int (length thresholds) = midi_note_max - midi_note_min
        \<longrightarrow> (\<forall>x\<in>set (convert_sequence floats thresholds midi_note_min).
               midi_note_min \<le> x \<and> x \<le> midi_note_max))"
proof -
  have reals: "convert_sequence temperatures increments midi_note_min =
     concat (map (\<lambda>t. convert_sequence [t] increments midi_note_min) temperatures)
   \<and> ((\<forall>p<length increments. increments ! p < v)
        \<longrightarrow> convert_sequence [v] increments midi_note_min = [])
   \<and> (\<forall>p<length increments. v \<le> increments ! p \<and> (\<forall>q<p. increments ! q < v)
        \<longrightarrow> convert_sequence [v] increments midi_note_min = [int p + midi_note_min])
   \<and> (int (length increments) = midi_note_max - midi_note_min
        \<longrightarrow> (\<forall>x\<in>set (convert_sequence temperatures increments midi_note_min).
               midi_note_min \<le> x \<and> x \<le> midi_note_max))"
    by (rule convert_sequence_any [of temperatures increments midi_note_min v midi_note_max,
          unfolded not_le])
  show ?thesis
    using reals convert_sequence_any [of floats thresholds midi_note_min w midi_note_max]
    by blast
qed

theorem convert_sequence_assign_witness:
  "convert_sequence [10, 20, 30 :: real] [10, 20] 0 = [0, 1]
   \<and> convert_sequence [30 :: real] [10, 20] 0 = []
   \<and> convert_sequence [20 :: real] [10, 20] 0 = [int 1 + 0]
   \<and> int (length [10, 20 :: real]) = 2 - 0
   \<and> list_all (\<lambda>x. 0 \<le> x \<and> x \<le> 2) (convert_sequence [10, 20, 30 :: real] [10, 20] 0)
   \<and> convert_sequence [Finite 30] [NaN, Finite 20] 0 = []
   \<and> convert_sequence [Finite 20] [NaN, PosInf] 0 = [int 1 + 0]
   \<and> int (length [NaN, PosInf]) = 2 - 0
   \<and> list_all (\<lambda>x. 0 \<le> x \<and> x \<le> 2) (convert_sequence [Finite 10, NaN, Finite 30] [NaN, PosInf] 0)"
  using convert_sequence_assign [of "[10, 20, 30]" "[10, 20]" 0 20 2
      "[Finite 10, NaN, Finite 30]" "[NaN, PosInf]" "Finite 20"]
  by (simp add: convert_sequence_def less_eq_pyfloat_def)

section \<open>Normalizer and Bucketizer together\<close>





text \<open>
  Claim C3, as amended: for the values \<open>[10, 20, 30]\<close> with \<open>midi_note_min = 0\<close> and
  \<open>midi_note_max = 2\<close>, \<^verbatim>\<open>midi_normalization\<close> returns the thresholds
  \<open>[10, 20]\<close> (the loop index starts at 0, so the first threshold is the minimum
  itself) and \<^verbatim>\<open>convert_sequence\<close> then returns \<open>[0, 1]\<close>: 30 exceeds every
  threshold and gives no output element.
\<close>

theorem normalization_scenario:
  "midi_normalization [10, 20, 30] 0 2 = Inr [Finite 10, Finite 20]
   \<and> convert_sequence [Finite 10, Finite 20, Finite 30] [Finite 10, Finite 20] 0 = [0, 1]"
  by (simp add: midi_normalization_def midi_normalization_loop.simps float_of_int_def
      py_sub_def round_double_numeral convert_sequence_def)

text \<open>The thresholds are not \<open>[20, 30]\<close>, and the indices are not \<open>[0, 0, 1]\<close>.\<close>

theorem normalization_scenario_counterexample:
  "midi_normalization [10, 20, 30] 0 2 \<noteq> Inr [Finite 20, Finite 30]
   \<and> convert_sequence [Finite 10, Finite 20, Finite 30] [Finite 10, Finite 20] 0 \<noteq> [0, 0, 1]"
  by (simp add: midi_normalization_def midi_normalization_loop.simps float_of_int_def
      py_sub_def round_double_numeral convert_sequence_def)

section \<open>Reader\<close>






section \<open>Sequencer\<close>

text \<open>
  Claim C6: \<^verbatim>\<open>set_mode\<close> with a mode that is none of 0, 1, 2, 3 fails with
  InvalidArgument and writes no file. The code writes no file, and it raises TypeError:
  the dictionary lookup returns the default \<^verbatim>\<open>"invalid mode"\<close>, a string, and the
  next statement calls it. The default shows that an invalid mode was meant to be handled;
  the call of the string is what fails.
\<close>

theorem set_mode_unrecognized:
  "mode \<notin> {0, 1, 2, 3} \<Longrightarrow>
     set_mode mode env temperature_data output_midi_file_name bpm volume
       midi_note_min midi_note_max files = (Inl TypeError, files)"
  by (simp add: set_mode_def dict_get_def mode_switch_def)

theorem set_mode_unrecognized_witness:
  "(5 :: int) \<notin> {0, 1, 2, 3}
   \<and> set_mode 5 sample_env ''t.csv'' ''just_warming_up'' 120 100 0 127 sample_files
       = (Inl TypeError, sample_files)"
  using set_mode_unrecognized [of 5 sample_env "''t.csv''" "''just_warming_up''" 120 100 0 127
      sample_files]
  by simp

end
